theory Spec2Isabelle
  imports Complex_Main "HOL-Library.Word" "HOL-Library.AList"
begin

section \<open>Client-side samples (reverb/cc/replay\_sampler.cc, class Sample)\<close>

text \<open>
  A failed \<open>REVERB_CHECK\<close> / \<open>CHECK\<close> / \<open>TF_CHECK_OK\<close> stops the process. It is a
  value of the model: every function that can hit one returns \<open>fault + result\<close>.
\<close>

datatype fault = CHECK_failed

text \<open>
  TensorFlow's tensors are an external library. A tensor is modelled by its contents
  along the first dimension: a scalar, or the list of its rows (each row a tensor of
  one dimension less). \<open>dim_size(0)\<close> is the number of rows; \<open>SubSlice(i)\<close> is row
  \<open>i\<close>; both are checked by the library and stop the process on a scalar, and
  \<open>SubSlice\<close> on an index that is not a row. Alignment of the underlying buffer is
  not modelled: \<open>DeepCopy\<close> of a slice has the contents of the slice.
\<close>

datatype scalar = U64 "64 word" | F64 real | I64 int

datatype tensor = Scalar scalar | Batch "tensor list"

fun dim_size0 :: "tensor \<Rightarrow> fault + nat" where
  "dim_size0 (Scalar v) = Inl CHECK_failed"
| "dim_size0 (Batch rows) = Inr (length rows)"

fun SubSlice :: "tensor \<Rightarrow> nat \<Rightarrow> fault + tensor" where
  "SubSlice (Scalar v) i = Inl CHECK_failed"
| "SubSlice (Batch rows) i = (if i < length rows then Inr (rows ! i) else Inl CHECK_failed)"

text \<open>\<open>InitializeTensor(value, length)\<close>: a vector holding \<open>value\<close> \<open>length\<close> times.\<close>

definition InitializeTensor :: "scalar \<Rightarrow> nat \<Rightarrow> tensor" where
  "InitializeTensor v len = Batch (replicate len (Scalar v))"

text \<open>
  \<open>tensorflow::tensor::Concat\<close> joins tensors along the first dimension; it reports an
  error for an empty list and for scalars. (The shape beyond the first dimension and
  the element type are not modelled, so neither are the errors they cause.)
\<close>

fun rows_of :: "tensor list \<Rightarrow> fault + tensor list" where
  "rows_of [] = Inr []"
| "rows_of (Scalar v # ts) = Inl CHECK_failed"
| "rows_of (Batch rows # ts) =
     (case rows_of ts of Inl e \<Rightarrow> Inl e | Inr rest \<Rightarrow> Inr (rows @ rest))"

definition Concat :: "tensor list \<Rightarrow> fault + tensor" where
  "Concat ts =
     (if ts = [] then Inl CHECK_failed
      else case rows_of ts of Inl e \<Rightarrow> Inl e | Inr rows \<Rightarrow> Inr (Batch rows))"

text \<open>
  The fields of \<open>Sample\<close>, under the names of the source without the trailing
  underscore. \<open>chunks\<close> is the \<open>std::list\<close> of chunks, each a vector of tensors.
\<close>

record sample =
  key :: "64 word"
  probability :: real
  table_size :: int
  num_timesteps :: nat
  num_data_tensors :: nat
  chunks :: "tensor list list"
  next_timestep_index :: nat
  next_timestep_called :: bool

text \<open>
  The constructor's loop: \<open>num_timesteps_ += batches.front().dim_size(0)\<close> for every
  chunk. \<open>front()\<close> of an empty vector is undefined behaviour in the source; the model
  stops there.
\<close>

fun count_timesteps :: "tensor list list \<Rightarrow> nat \<Rightarrow> fault + nat" where
  "count_timesteps [] acc = Inr acc"
| "count_timesteps ([] # cs) acc = Inl CHECK_failed"
| "count_timesteps ((t # ts) # cs) acc =
     (case dim_size0 t of Inl e \<Rightarrow> Inl e | Inr d \<Rightarrow> count_timesteps cs (acc + d))"

definition Sample_new ::
  "64 word \<Rightarrow> real \<Rightarrow> int \<Rightarrow> tensor list list \<Rightarrow> fault + sample" where
  "Sample_new k p n cs =
     (if cs = [] then Inl CHECK_failed
      else if hd cs = [] then Inl CHECK_failed
      else case count_timesteps cs 0 of
             Inl e \<Rightarrow> Inl e
           | Inr steps \<Rightarrow>
               Inr \<lparr>key = k, probability = p, table_size = n, num_timesteps = steps,
                    num_data_tensors = length (hd cs), chunks = cs,
                    next_timestep_index = 0, next_timestep_called = False\<rparr>)"

definition is_end_of_sample :: "sample \<Rightarrow> bool" where
  "is_end_of_sample s = (chunks s = [])"

text \<open>The loop of \<open>GetNextTimestep\<close> over the tensors of the front chunk.\<close>

fun slices :: "tensor list \<Rightarrow> nat \<Rightarrow> fault + tensor list" where
  "slices [] i = Inr []"
| "slices (t # ts) i =
     (case SubSlice t i of
        Inl e \<Rightarrow> Inl e
      | Inr sl \<Rightarrow> (case slices ts i of Inl e \<Rightarrow> Inl e | Inr rest \<Rightarrow> Inr (sl # rest)))"

text \<open>
  \<open>Sample::GetNextTimestep\<close>. The result is the vector of tensors; the second component
  is the sample afterwards. \<open>chunks_.front().front()\<close> of a chunk without tensors is
  undefined behaviour in the source; the model stops there.
\<close>

definition Sample_GetNextTimestep :: "sample \<Rightarrow> fault + (tensor list \<times> sample)" where
  "Sample_GetNextTimestep s =
     (if is_end_of_sample s then Inl CHECK_failed
      else
        let front = hd (chunks s) in
        case slices front (next_timestep_index s) of
          Inl e \<Rightarrow> Inl e
        | Inr sls \<Rightarrow>
            let result = [Scalar (U64 (key s)), Scalar (F64 (probability s)),
                          Scalar (I64 (table_size s))] @ sls;
                idx = next_timestep_index s + 1
            in (case front of
                  [] \<Rightarrow> Inl CHECK_failed
                | t # ts \<Rightarrow>
                    (case dim_size0 t of
                       Inl e \<Rightarrow> Inl e
                     | Inr d \<Rightarrow>
                         if idx = d
                         then Inr (result, s\<lparr>chunks := tl (chunks s),
                                             next_timestep_index := 0,
                                             next_timestep_called := True\<rparr>)
                         else Inr (result, s\<lparr>next_timestep_index := idx,
                                             next_timestep_called := True\<rparr>))))"

text \<open>
  \<open>Sample::AsBatchedTimesteps\<close>. \<open>extract_chunks\<close> is the loop that moves the tensors of every
  chunk into \<open>data_tensors\<close> (\<open>data_tensors[i][j]\<close> is the \<open>j\<close>-th chunk of the
  \<open>i\<close>-th data tensor); a chunk with more tensors than \<open>num_data_tensors_\<close> would
  write past the end of \<open>data_tensors\<close>, and the model stops there.
\<close>

fun push_each :: "tensor list list \<Rightarrow> tensor list \<Rightarrow> fault + tensor list list" where
  "push_each dts [] = Inr dts"
| "push_each [] (b # bs) = Inl CHECK_failed"
| "push_each (d # dts) (b # bs) =
     (case push_each dts bs of Inl e \<Rightarrow> Inl e | Inr rest \<Rightarrow> Inr ((d @ [b]) # rest))"

fun extract_chunks :: "tensor list list \<Rightarrow> tensor list list \<Rightarrow> fault + tensor list list" where
  "extract_chunks [] dts = Inr dts"
| "extract_chunks (c # cs) dts =
     (case push_each dts c of Inl e \<Rightarrow> Inl e | Inr dts' \<Rightarrow> extract_chunks cs dts')"

fun concat_all :: "tensor list list \<Rightarrow> fault + tensor list" where
  "concat_all [] = Inr []"
| "concat_all (d # dts) =
     (case Concat d of
        Inl e \<Rightarrow> Inl e
      | Inr t \<Rightarrow> (case concat_all dts of Inl e \<Rightarrow> Inl e | Inr rest \<Rightarrow> Inr (t # rest)))"

definition Sample_AsBatchedTimesteps :: "sample \<Rightarrow> fault + (tensor list \<times> sample)" where
  "Sample_AsBatchedTimesteps s =
     (if next_timestep_called s then Inl CHECK_failed
      else
        case extract_chunks (chunks s) (replicate (num_data_tensors s) []) of
          Inl e \<Rightarrow> Inl e
        | Inr data_tensors \<Rightarrow>
            (case concat_all data_tensors of
               Inl e \<Rightarrow> Inl e
             | Inr seqs \<Rightarrow>
                 Inr ([InitializeTensor (U64 (key s)) (num_timesteps s),
                       InitializeTensor (F64 (probability s)) (num_timesteps s),
                       InitializeTensor (I64 (table_size s)) (num_timesteps s)] @ seqs,
                      s\<lparr>chunks := []\<rparr>)))"

text \<open>
  \<open>n\<close> calls of \<open>GetNextTimestep\<close> in a row on one sample: the timesteps returned, in
  order, and the sample afterwards; the first call that stops the process stops the
  sequence.
\<close>

fun timesteps :: "nat \<Rightarrow> sample \<Rightarrow> fault + (tensor list list \<times> sample)" where
  "timesteps 0 s = Inr ([], s)"
| "timesteps (Suc n) s =
     (case Sample_GetNextTimestep s of
        Inl e \<Rightarrow> Inl e
      | Inr (r, s') \<Rightarrow>
          (case timesteps n s' of Inl e \<Rightarrow> Inl e | Inr (rs, s'') \<Rightarrow> Inr (r # rs, s'')))"

section \<open>The client-side sampler (reverb/cc/replay\_sampler.cc, class ReplaySampler)\<close>

text \<open>
  The canonical status codes, shared by \<open>tensorflow::Status\<close> and \<open>grpc::Status\<close>; a
  status is modelled by its code (messages are dropped).
\<close>

datatype code =
    OK | CANCELLED | UNKNOWN | INVALID_ARGUMENT | DEADLINE_EXCEEDED | NOT_FOUND
  | ALREADY_EXISTS | PERMISSION_DENIED | RESOURCE_EXHAUSTED | FAILED_PRECONDITION
  | ABORTED | OUT_OF_RANGE | UNIMPLEMENTED | INTERNAL | UNAVAILABLE | DATA_LOSS
  | UNAUTHENTICATED

text \<open>
  A call of the sampler stops the process (a failed check), waits (\<open>Blocks\<close>: it returns
  only after another thread has changed the state), or returns.
\<close>

datatype 'a call = Stops | Blocks | Returns 'a

text \<open>
  What the sampler uses and the sources do not hold is a parameter of its functions:
  the class \<open>internal::Queue\<close> (reverb/cc/support/queue.h) with its constructor and
  its methods \<open>Push\<close>, \<open>Pop\<close> and \<open>Close\<close>, and \<open>FromGrpcStatus\<close>
  (reverb/cc/support/grpc\_util.h). \<open>Push\<close> and \<open>Pop\<close> return their boolean (\<open>Pop\<close>
  the element it wrote through its pointer, if it did) and the queue afterwards;
  \<open>None\<close> is a call that waits. \<open>Queue_closed\<close> and \<open>Queue_size\<close> observe a queue:
  they are what the contract below is stated with.
\<close>

record 'q missing_parts =
  Queue_new :: "nat \<Rightarrow> 'q"
  Queue_Push :: "sample \<Rightarrow> 'q \<Rightarrow> (bool \<times> 'q) option"
  Queue_Pop :: "'q \<Rightarrow> (sample option \<times> 'q) option"
  Queue_Close :: "'q \<Rightarrow> 'q"
  Queue_closed :: "'q \<Rightarrow> bool"
  Queue_size :: "'q \<Rightarrow> nat"
  FromGrpcStatus :: "code \<Rightarrow> code"

text \<open>
  What the sampler relies on, read off the way it uses the queue (\<open>samples_.Close()\<close>
  ``unblocks any pending calls'', in \<open>RunWorker\<close>; a refused \<open>Push\<close> is reported
  as ``\<open>Close\<close> called'', in \<open>OpenStreamAndFetch\<close>):
  \<^item> a new queue is empty;
  \<^item> \<open>Close\<close> closes the queue and adds nothing to it;
  \<^item> \<open>Pop\<close> on a closed queue returns \<open>false\<close> without waiting;
  \<^item> a \<open>Pop\<close> that returns an element takes it out, and no \<open>Pop\<close> adds one;
  \<^item> \<open>Push\<close> returns \<open>true\<close> only on a queue that is not closed, adds at most one
    element, and none when it returns \<open>false\<close>;
  \<^item> neither \<open>Pop\<close> nor \<open>Push\<close> reopens a closed queue.
\<close>

definition queue_contract :: "'q missing_parts \<Rightarrow> bool" where
  "queue_contract Q =
     ((\<forall>n. Queue_size Q (Queue_new Q n) = 0) \<and>
      (\<forall>q. Queue_closed Q (Queue_Close Q q)) \<and>
      (\<forall>q. Queue_size Q (Queue_Close Q q) \<le> Queue_size Q q) \<and>
      (\<forall>q. Queue_closed Q q \<longrightarrow> (\<exists>q'. Queue_Pop Q q = Some (None, q'))) \<and>
      (\<forall>q r q'. Queue_Pop Q q = Some (r, q') \<longrightarrow>
         Queue_size Q q' + (if r = None then 0 else 1) \<le> Queue_size Q q) \<and>
      (\<forall>q r q'. Queue_Pop Q q = Some (r, q') \<longrightarrow> Queue_closed Q q \<longrightarrow> Queue_closed Q q') \<and>
      (\<forall>q x q'. Queue_Push Q x q = Some (True, q') \<longrightarrow> \<not> Queue_closed Q q) \<and>
      (\<forall>q x b q'. Queue_Push Q x q = Some (b, q') \<longrightarrow>
         Queue_size Q q' \<le> Queue_size Q q + (if b then 1 else 0)) \<and>
      (\<forall>q x b q'. Queue_Push Q x q = Some (b, q') \<longrightarrow> Queue_closed Q q \<longrightarrow> Queue_closed Q q'))"

text \<open>
  A queue that meets the contract: a bounded buffer with a flag. \<open>Push\<close> waits while
  the buffer is full and \<open>Pop\<close> while it is empty, and both return \<open>false\<close> on a closed
  queue.
\<close>

record 'a bounded_buffer =
  buffer :: "'a list"
  capacity :: nat
  buffer_closed :: bool

definition buffer_queue :: "(code \<Rightarrow> code) \<Rightarrow> sample bounded_buffer missing_parts" where
  "buffer_queue f =
     \<lparr>Queue_new = (\<lambda>n. \<lparr>buffer = [], capacity = n, buffer_closed = False\<rparr>),
      Queue_Push = (\<lambda>x q.
        if buffer_closed q then Some (False, q)
        else if capacity q \<le> length (buffer q) then None
        else Some (True, q\<lparr>buffer := buffer q @ [x]\<rparr>)),
      Queue_Pop = (\<lambda>q.
        if buffer_closed q then Some (None, q)
        else case buffer q of
               [] \<Rightarrow> None
             | x # xs \<Rightarrow> Some (Some x, q\<lparr>buffer := xs\<rparr>)),
      Queue_Close = (\<lambda>q. q\<lparr>buffer_closed := True\<rparr>),
      Queue_closed = buffer_closed,
      Queue_size = (\<lambda>q. length (buffer q)),
      FromGrpcStatus = f\<rparr>"

text \<open>
  A worker: the \<open>closed_\<close> flag of its \<open>Worker\<close> object, and where its thread stands in
  \<open>RunWorker\<close>: waiting at the head of the loop (\<open>Idle\<close>), inside
  \<open>OpenStreamAndFetch\<close> with \<open>num_samples\<close> and \<open>num_samples_returned\<close>
  (\<open>Fetching\<close>), or returned from \<open>RunWorker\<close> (\<open>Exited\<close>).
\<close>

datatype fetch = Idle | Fetching int int | Exited

record worker =
  worker_closed :: bool
  worker_at :: fetch

text \<open>
  The fields of \<open>ReplaySampler\<close> (the stub and the thread handles are left out);
  \<open>samples\<close> is the queue. The initial values that the constructor does not set are
  those of the header, which is not among the sources: the counters are taken to start
  at 0, \<open>closed_\<close> at false and \<open>stream_status_\<close> at \<open>OK\<close>. The 64-bit counters are
  modelled as integers: \<open>returned_\<close> stays between 0 and \<open>max_samples_\<close> (lemma
  \<open>returned_bounded\<close>), so it does not wrap.
\<close>

record 'q replay_sampler =
  max_samples :: int
  max_samples_per_stream :: int
  returned :: int
  requested :: int
  closed :: bool
  stream_status :: code
  active_sample :: "sample option"
  samples :: 'q
  workers :: "worker list"

text \<open>
  The constants of replay\_sampler.h, which is not among the sources, are parameters of
  the constructor.
\<close>

record sampler_constants =
  kUnlimitedMaxSamples :: int
  kAutoSelectValue :: int
  kDefaultNumWorkers :: int
  kDefaultMaxSamplesPerStream :: int

record sampler_options =
  opt_max_samples :: int
  opt_max_in_flight_samples_per_worker :: int
  opt_num_workers :: int
  opt_max_samples_per_stream :: int

definition INT64_MAX :: int where
  "INT64_MAX = 2 ^ 63 - 1"

definition ReplaySampler_new ::
  "'q missing_parts \<Rightarrow> sampler_constants \<Rightarrow> sampler_options \<Rightarrow> fault + 'q replay_sampler" where
  "ReplaySampler_new Q c opts =
     (let ms = (if opt_max_samples opts = kUnlimitedMaxSamples c then INT64_MAX
                else opt_max_samples opts);
          mps = (if opt_max_samples_per_stream opts = kAutoSelectValue c
                 then kDefaultMaxSamplesPerStream c
                 else opt_max_samples_per_stream opts)
      in if \<not> 0 < ms then Inl CHECK_failed
         else if \<not> 0 < opt_max_in_flight_samples_per_worker opts then Inl CHECK_failed
         else if \<not> (opt_num_workers opts = kAutoSelectValue c \<or> 0 < opt_num_workers opts)
         then Inl CHECK_failed
         else
           let nw = (if opt_num_workers opts = kAutoSelectValue c then kDefaultNumWorkers c
                     else opt_num_workers opts);
               nw' = min nw (max 1 (ms div opt_max_in_flight_samples_per_worker opts))
           in Inr \<lparr>max_samples = ms, max_samples_per_stream = mps, returned = 0,
                   requested = 0, closed = False, stream_status = OK,
                   active_sample = None,
                   samples = Queue_new Q (nat (max (opt_num_workers opts) 1)),
                   workers = replicate (nat nw')
                               \<lparr>worker_closed = False, worker_at = Idle\<rparr>\<rparr>)"

definition should_stop_workers :: "'q replay_sampler \<Rightarrow> bool" where
  "should_stop_workers st =
     (closed st \<or> returned st = max_samples st \<or> stream_status st \<noteq> OK)"

text \<open>
  \<open>PopNextSample\<close>: the status, the sample written through the pointer (if any) and the
  sampler afterwards.
\<close>

definition PopNextSample ::
  "'q missing_parts \<Rightarrow> 'q replay_sampler \<Rightarrow> (code \<times> sample option \<times> 'q replay_sampler) call" where
  "PopNextSample Q st =
     (case Queue_Pop Q (samples st) of
        None \<Rightarrow> Blocks
      | Some (Some s, q) \<Rightarrow> Returns (OK, Some s, st\<lparr>samples := q\<rparr>)
      | Some (None, q) \<Rightarrow>
          if returned st = max_samples st then Returns (OUT_OF_RANGE, None, st\<lparr>samples := q\<rparr>)
          else if closed st then Returns (CANCELLED, None, st\<lparr>samples := q\<rparr>)
          else Returns (FromGrpcStatus Q (stream_status st), None, st\<lparr>samples := q\<rparr>))"

text \<open>
  \<open>++returned_ == max_samples_\<close> followed by \<open>samples_.Close()\<close>, the end of both
  \<open>GetNextSample\<close> and \<open>GetNextTimestep\<close>.
\<close>

definition count_returned :: "'q missing_parts \<Rightarrow> 'q replay_sampler \<Rightarrow> 'q replay_sampler" where
  "count_returned Q st =
     (let st' = st\<lparr>returned := returned st + 1\<rparr>
      in if returned st' = max_samples st' then st'\<lparr>samples := Queue_Close Q (samples st')\<rparr>
         else st')"

text \<open>
  \<open>GetNextSample\<close>. A status \<open>OK\<close> of \<open>PopNextSample\<close> that comes without a sample
  leaves a null pointer to dereference; the model stops there.
\<close>

definition GetNextSample ::
  "'q missing_parts \<Rightarrow> 'q replay_sampler \<Rightarrow> (code \<times> tensor list option \<times> 'q replay_sampler) call" where
  "GetNextSample Q st =
     (case PopNextSample Q st of
        Stops \<Rightarrow> Stops
      | Blocks \<Rightarrow> Blocks
      | Returns (c, popped, st1) \<Rightarrow>
          if c \<noteq> OK then Returns (c, None, st1)
          else case popped of
                 None \<Rightarrow> Stops
               | Some s \<Rightarrow>
                   (case Sample_AsBatchedTimesteps s of
                      Inl e \<Rightarrow> Stops
                    | Inr (data, s') \<Rightarrow> Returns (OK, Some data, count_returned Q st1)))"

definition MaybeSampleNext ::
  "'q missing_parts \<Rightarrow> 'q replay_sampler \<Rightarrow> (code \<times> 'q replay_sampler) call" where
  "MaybeSampleNext Q st =
     (if active_sample st \<noteq> None \<and> \<not> is_end_of_sample (the (active_sample st))
      then Returns (OK, st)
      else case PopNextSample Q st of
             Stops \<Rightarrow> Stops
           | Blocks \<Rightarrow> Blocks
           | Returns (c, popped, st1) \<Rightarrow>
               Returns (c, case popped of
                             None \<Rightarrow> st1
                           | Some s \<Rightarrow> st1\<lparr>active_sample := Some s\<rparr>))"

text \<open>
  \<open>GetNextTimestep\<close>: the status, the timestep with the value written to
  \<open>end_of_sequence\<close>, and the sampler afterwards.
\<close>

definition GetNextTimestep ::
  "'q missing_parts \<Rightarrow> 'q replay_sampler
   \<Rightarrow> (code \<times> (tensor list \<times> bool) option \<times> 'q replay_sampler) call" where
  "GetNextTimestep Q st =
     (case MaybeSampleNext Q st of
        Stops \<Rightarrow> Stops
      | Blocks \<Rightarrow> Blocks
      | Returns (c, st1) \<Rightarrow>
          if c \<noteq> OK then Returns (c, None, st1)
          else case active_sample st1 of
                 None \<Rightarrow> Stops
               | Some a \<Rightarrow>
                   (case Sample_GetNextTimestep a of
                      Inl e \<Rightarrow> Stops
                    | Inr (data, a') \<Rightarrow>
                        let st2 = st1\<lparr>active_sample := Some a'\<rparr>
                        in if is_end_of_sample a'
                           then Returns (OK, Some (data, True), count_returned Q st2)
                           else Returns (OK, Some (data, False), st2)))"

text \<open>
  \<open>Close\<close>: sets \<open>closed_\<close>, cancels every worker, closes the queue. (It then waits for
  the worker threads, which leave \<open>RunWorker\<close> by their own steps below.)
\<close>

definition Close :: "'q missing_parts \<Rightarrow> 'q replay_sampler \<Rightarrow> 'q replay_sampler" where
  "Close Q st =
     (if closed st then st
      else st\<lparr>closed := True,
              workers := map (\<lambda>w. w\<lparr>worker_closed := True\<rparr>) (workers st),
              samples := Queue_Close Q (samples st)\<rparr>)"

text \<open>
  The end of one round of \<open>RunWorker\<close> for worker \<open>i\<close>, whose \<open>OpenStreamAndFetch\<close>
  asked for \<open>n\<close> samples and returned \<open>(k, status)\<close>: \<open>requested_\<close> gives back what was
  not fetched; the first error other than \<open>UNAVAILABLE\<close> is kept in \<open>stream_status_\<close>,
  closes the queue and ends the worker.
\<close>

definition finish_fetch ::
  "'q missing_parts \<Rightarrow> nat \<Rightarrow> int \<Rightarrow> int \<Rightarrow> code \<Rightarrow> 'q replay_sampler \<Rightarrow> 'q replay_sampler" where
  "finish_fetch Q i n k status st =
     (let st1 = st\<lparr>requested := requested st - (n - k)\<rparr>
      in if stream_status st1 = OK \<and> status \<noteq> OK \<and> status \<noteq> UNAVAILABLE
         then st1\<lparr>stream_status := status,
                  samples := Queue_Close Q (samples st1),
                  workers := (workers st1)[i := (workers st1 ! i)\<lparr>worker_at := Exited\<rparr>]\<rparr>
         else st1\<lparr>workers := (workers st1)[i := (workers st1 ! i)\<lparr>worker_at := Idle\<rparr>]\<rparr>)"

text \<open>
  The steps of the threads that share a sampler, each atomic under \<open>mu_\<close> or the queue's
  lock:
  \<^item> the three calls of the client;
  \<^item> \<open>Worker_Loop i\<close>: worker \<open>i\<close> passes \<open>LockWhen(trigger)\<close> at the head of its loop
    and either returns (\<open>should_stop_workers\<close>) or reserves \<open>samples_to_stream\<close> and
    enters \<open>OpenStreamAndFetch\<close>;
  \<^item> \<open>Worker_Push i k p n cs\<close>: inside \<open>OpenStreamAndFetch\<close>, worker \<open>i\<close> has read
    the responses of one sample and pushes \<open>AsSample(responses)\<close>, the sample built by
    the constructor from key \<open>k\<close>, probability \<open>p\<close>, table size \<open>n\<close> and chunks
    \<open>cs\<close> (decompression of the responses is not modelled); a refused push ends the
    fetch with \<open>CANCELLED\<close>;
  \<^item> \<open>Worker_Finish i status\<close>: \<open>OpenStreamAndFetch\<close> of worker \<open>i\<close> returns with
    \<open>status\<close>: at its start because the worker was cancelled (\<open>CANCELLED\<close>), inside
    its loop because the stream failed (the status of \<open>Finish()\<close>), or after its loop
    (\<open>OK\<close>, behind the check that all \<open>num_samples\<close> were fetched).
  A step that is not possible in a state (a call that waits, a worker that is elsewhere)
  is \<open>Blocks\<close>.
\<close>

datatype event =
    Call_GetNextSample
  | Call_GetNextTimestep
  | Call_Close
  | Worker_Loop nat
  | Worker_Push nat "64 word" real int "tensor list list"
  | Worker_Finish nat code

definition worker_loop :: "nat \<Rightarrow> 'q replay_sampler \<Rightarrow> 'q replay_sampler call" where
  "worker_loop i st =
     (if \<not> i < length (workers st) then Blocks
      else if worker_at (workers st ! i) \<noteq> Idle then Blocks
      else if \<not> (should_stop_workers st \<or> requested st < max_samples st) then Blocks
      else if should_stop_workers st
      then Returns (st\<lparr>workers := (workers st)[i := (workers st ! i)\<lparr>worker_at := Exited\<rparr>]\<rparr>)
      else
        let samples_to_stream = min (max_samples_per_stream st) (max_samples st - requested st)
        in Returns (st\<lparr>requested := requested st + samples_to_stream,
                       workers := (workers st)[i := (workers st ! i)
                                     \<lparr>worker_at := Fetching samples_to_stream 0\<rparr>]\<rparr>))"

definition worker_push ::
  "'q missing_parts \<Rightarrow> nat \<Rightarrow> 64 word \<Rightarrow> real \<Rightarrow> int \<Rightarrow> tensor list list
   \<Rightarrow> 'q replay_sampler \<Rightarrow> 'q replay_sampler call" where
  "worker_push Q i k p n cs st =
     (if \<not> i < length (workers st) then Blocks
      else case worker_at (workers st ! i) of
             Idle \<Rightarrow> Blocks
           | Exited \<Rightarrow> Blocks
           | Fetching num_samples num_returned \<Rightarrow>
               if \<not> num_returned < num_samples then Blocks
               else case Sample_new k p n cs of
                      Inl e \<Rightarrow> Stops
                    | Inr s \<Rightarrow>
                        (case Queue_Push Q s (samples st) of
                           None \<Rightarrow> Blocks
                         | Some (False, q) \<Rightarrow>
                             Returns (finish_fetch Q i num_samples num_returned CANCELLED
                                        (st\<lparr>samples := q\<rparr>))
                         | Some (True, q) \<Rightarrow>
                             Returns (st\<lparr>samples := q,
                                        workers := (workers st)[i := (workers st ! i)
                                          \<lparr>worker_at := Fetching num_samples (num_returned + 1)\<rparr>]\<rparr>)))"

definition worker_finish ::
  "'q missing_parts \<Rightarrow> nat \<Rightarrow> code \<Rightarrow> 'q replay_sampler \<Rightarrow> 'q replay_sampler call" where
  "worker_finish Q i status st =
     (if \<not> i < length (workers st) then Blocks
      else case worker_at (workers st ! i) of
             Idle \<Rightarrow> Blocks
           | Exited \<Rightarrow> Blocks
           | Fetching num_samples num_returned \<Rightarrow>
               if num_returned = 0 \<and> worker_closed (workers st ! i) \<and> status = CANCELLED
               then Returns (finish_fetch Q i num_samples num_returned status st)
               else if num_returned < num_samples
               then Returns (finish_fetch Q i num_samples num_returned status st)
               else if num_returned \<noteq> num_samples then Stops
               else if status = OK
               then Returns (finish_fetch Q i num_samples num_returned status st)
               else Blocks)"

fun step :: "'q missing_parts \<Rightarrow> event \<Rightarrow> 'q replay_sampler \<Rightarrow> 'q replay_sampler call" where
  "step Q Call_GetNextSample st =
     (case GetNextSample Q st of
        Stops \<Rightarrow> Stops | Blocks \<Rightarrow> Blocks | Returns (c, data, st') \<Rightarrow> Returns st')"
| "step Q Call_GetNextTimestep st =
     (case GetNextTimestep Q st of
        Stops \<Rightarrow> Stops | Blocks \<Rightarrow> Blocks | Returns (c, data, st') \<Rightarrow> Returns st')"
| "step Q Call_Close st = Returns (Close Q st)"
| "step Q (Worker_Loop i) st = worker_loop i st"
| "step Q (Worker_Push i k p n cs) st = worker_push Q i k p n cs st"
| "step Q (Worker_Finish i status) st = worker_finish Q i status st"

text \<open>
  A run: the steps of a list, in order, each possible and none stopping the process.
\<close>

fun run :: "'q missing_parts \<Rightarrow> event list \<Rightarrow> 'q replay_sampler \<Rightarrow> 'q replay_sampler option" where
  "run Q [] st = Some st"
| "run Q (e # es) st =
     (case step Q e st of Stops \<Rightarrow> None | Blocks \<Rightarrow> None | Returns st' \<Rightarrow> run Q es st')"

subsection \<open>Bookkeeping of the sampler's counters\<close>

text \<open>
  What the counters of a sampler account for: the samples a worker has reserved in
  \<open>requested_\<close> and not yet pushed (\<open>inflight\<close>, \<open>reserved\<close>), the sample the client is
  iterating over (\<open>unfinished\<close>), and the samples that have left the workers
  (\<open>fetched\<close>: returned, being iterated, or waiting in the queue). \<open>sampler_inv\<close> is
  the invariant of the sampler's steps; \<open>client_effect\<close> is what a call of the client
  may change.
\<close>

definition inflight :: "worker \<Rightarrow> int" where
  "inflight w = (case worker_at w of Fetching n k \<Rightarrow> n - k | Idle \<Rightarrow> 0 | Exited \<Rightarrow> 0)"

definition reserved :: "worker list \<Rightarrow> int" where
  "reserved ws = sum_list (map inflight ws)"

definition unfinished :: "'q replay_sampler \<Rightarrow> int" where
  "unfinished st =
     (case active_sample st of
        None \<Rightarrow> 0
      | Some a \<Rightarrow> if is_end_of_sample a then 0 else 1)"

definition fetched :: "'q missing_parts \<Rightarrow> 'q replay_sampler \<Rightarrow> int" where
  "fetched Q st = returned st + unfinished st + int (Queue_size Q (samples st))"

definition fetching_ok :: "worker \<Rightarrow> bool" where
  "fetching_ok w = (case worker_at w of Fetching n k \<Rightarrow> 0 \<le> k \<and> k \<le> n | Idle \<Rightarrow> True | Exited \<Rightarrow> True)"

definition fetching_none :: "worker \<Rightarrow> bool" where
  "fetching_none w = (case worker_at w of Fetching n k \<Rightarrow> k = 0 \<and> n \<le> 0 | Idle \<Rightarrow> True | Exited \<Rightarrow> True)"

definition sampler_inv :: "'q missing_parts \<Rightarrow> 'q replay_sampler \<Rightarrow> bool" where
  "sampler_inv Q st =
     (0 < max_samples st \<and> 0 \<le> returned st \<and>
      (returned st = max_samples st \<longrightarrow> Queue_closed Q (samples st)) \<and>
      (if 0 < max_samples_per_stream st
       then list_all fetching_ok (workers st) \<and>
            fetched Q st + reserved (workers st) \<le> requested st \<and>
            requested st \<le> max_samples st
       else list_all fetching_none (workers st) \<and> fetched Q st \<le> 0))"

definition client_effect :: "'q missing_parts \<Rightarrow> 'q replay_sampler \<Rightarrow> 'q replay_sampler \<Rightarrow> bool" where
  "client_effect Q st st' =
     (max_samples st' = max_samples st \<and>
      max_samples_per_stream st' = max_samples_per_stream st \<and>
      requested st' = requested st \<and> workers st' = workers st \<and>
      fetched Q st' \<le> fetched Q st \<and> returned st \<le> returned st' \<and>
      (returned st' = max_samples st' \<longrightarrow> returned st = max_samples st \<longrightarrow>
         Queue_closed Q (samples st) \<longrightarrow> Queue_closed Q (samples st')) \<and>
      (returned st' = max_samples st' \<longrightarrow> returned st \<noteq> max_samples st \<longrightarrow>
         Queue_closed Q (samples st')))"

section \<open>The InsertOnSample extension (reverb/cc/table\_extensions/insert\_on\_sample.cc)\<close>

text \<open>
  Modelled from the spec: the item types, which are declared outside the sources
  (schema.proto, table.h), with the fields that the data model of the specification
  lists and that \<open>ApplyOnSample\<close> reads or writes. A \<open>PrioritizedItem\<close>
  has a key, the name of its table, a priority, a sequence range (chunk key, offset,
  length), a counter \<open>times_sampled\<close> and the optional message \<open>inserted_at\<close>
  (\<open>None\<close> when cleared). A chunk handle is modelled by the key of its chunk.
\<close>

type_synonym chunk = "64 word"

type_synonym duration = int

record prioritized_item =
  item_key :: "64 word"
  item_table :: string
  item_priority :: real
  item_sequence_range :: "64 word \<times> int \<times> int"
  item_times_sampled :: int
  item_inserted_at :: "int option"

text \<open>
  An item of a table: the proto (\<open>AsPrioritizedItem()\<close>) and the chunk handles
  (\<open>chunks()\<close>). An \<open>ExtensionItem\<close> refers to a table item (\<open>ref\<close>) and carries the
  number of times it has been sampled.
\<close>

record table_item =
  item :: prioritized_item
  item_chunks :: "chunk list"

record extension_item =
  ref :: table_item
  times_sampled :: int

text \<open>
  The class \<open>Table\<close> is not among the sources: what the extension uses of it, \<open>name()\<close>
  and \<open>InsertOrAssign(item, timeout)\<close>, are parameters. \<open>InsertOrAssign\<close> returns its
  status and the table afterwards.
\<close>

record 'tbl table_api =
  api_name :: "'tbl \<Rightarrow> string"
  api_InsertOrAssign :: "table_item \<Rightarrow> duration \<Rightarrow> 'tbl \<Rightarrow> code \<times> 'tbl"

text \<open>The fields of the extension; \<open>target_table\<close> is the table the pointer refers to.\<close>

record 'tbl insert_on_sample =
  target_table :: 'tbl
  table_name :: string
  timeout :: duration

definition kUndefinedName :: string where
  "kUndefinedName = ''__UNDEFINED__''"

definition InsertOnSampleExtension_new :: "'tbl \<Rightarrow> duration \<Rightarrow> 'tbl insert_on_sample" where
  "InsertOnSampleExtension_new tbl t =
     \<lparr>target_table = tbl, table_name = kUndefinedName, timeout = t\<rparr>"

text \<open>
  \<open>ApplyOnSample\<close>: the extension afterwards (its target table is what
  \<open>InsertOrAssign\<close> left), and whether the warning was logged.
\<close>

definition ApplyOnSample ::
  "'tbl table_api \<Rightarrow> 'tbl insert_on_sample \<Rightarrow> extension_item \<Rightarrow> 'tbl insert_on_sample \<times> bool" where
  "ApplyOnSample api ext x =
     (if times_sampled x \<noteq> 1 then (ext, False)
      else
        let copy0 = item (ref x);
            copy1 = copy0\<lparr>item_table := api_name api (target_table ext)\<rparr>;
            copy2 = copy1\<lparr>item_inserted_at := None\<rparr>;
            (status, tbl) = api_InsertOrAssign api
                              \<lparr>item = copy2, item_chunks = item_chunks (ref x)\<rparr>
                              (timeout ext) (target_table ext)
        in (ext\<lparr>target_table := tbl\<rparr>, status \<noteq> OK))"

definition AfterRegisterTable :: "string \<Rightarrow> 'tbl insert_on_sample \<Rightarrow> 'tbl insert_on_sample" where
  "AfterRegisterTable name ext = ext\<lparr>table_name := name\<rparr>"

definition BeforeUnregisterTable :: "'tbl insert_on_sample \<Rightarrow> 'tbl insert_on_sample" where
  "BeforeUnregisterTable ext = ext\<lparr>table_name := kUndefinedName\<rparr>"

section \<open>The priority table, modelled from the specification\<close>

text \<open>
  Modelled from the spec: the table, its distributions and its rate limiter. Their
  implementation (priority\_table.cc, distributions/*.cc, rate\_limiter.cc) is not among
  the sources: only the table's tests are. Every definition of this section up to the
  helpers of the tests follows the words of the specification (sections 3, 4.1, 4.2 and
  4.3). Real numbers stand for the doubles; \<open>u\<close> is the random number a distribution
  draws, between 0 and 1. Extensions are not modelled, and neither is time: a call whose
  timeout expires while it waits returns \<open>DEADLINE_EXCEEDED\<close> and changes nothing.
\<close>

type_synonym key = "64 word"

datatype dist_error = already_exists | not_found

text \<open>
  Modelled from the spec: the distributions of section 4.1, whose source is missing.
  Uniform keeps its keys in a dynamic array, FIFO and LIFO in an ordered list (oldest
  first), Prioritized keeps a weight per key (the sum tree's leaves) under its exponent.
\<close>

datatype distribution =
    UniformDistribution "key list"
  | FifoDistribution "key list"
  | LifoDistribution "key list"
  | PrioritizedDistribution real "(key \<times> real) list"

text \<open>Modelled from the spec: the live keys of a distribution, in its order.\<close>

fun dist_keys :: "distribution \<Rightarrow> key list" where
  "dist_keys (UniformDistribution ks) = ks"
| "dist_keys (FifoDistribution ks) = ks"
| "dist_keys (LifoDistribution ks) = ks"
| "dist_keys (PrioritizedDistribution a kps) = map fst kps"

text \<open>Modelled from the spec: \<open>Insert(key, priority) -> ok | already_exists\<close>; insert appends.\<close>

fun dist_Insert :: "key \<Rightarrow> real \<Rightarrow> distribution \<Rightarrow> dist_error + distribution" where
  "dist_Insert k p (UniformDistribution ks) =
     (if k \<in> set ks then Inl already_exists else Inr (UniformDistribution (ks @ [k])))"
| "dist_Insert k p (FifoDistribution ks) =
     (if k \<in> set ks then Inl already_exists else Inr (FifoDistribution (ks @ [k])))"
| "dist_Insert k p (LifoDistribution ks) =
     (if k \<in> set ks then Inl already_exists else Inr (LifoDistribution (ks @ [k])))"
| "dist_Insert k p (PrioritizedDistribution a kps) =
     (if k \<in> set (map fst kps) then Inl already_exists
      else Inr (PrioritizedDistribution a (kps @ [(k, p)])))"









































subsection \<open>Predicates on tables\<close>




section \<open>Properties of Sample\<close>

lemma GetNextTimestep_sets_flag:
  "Sample_GetNextTimestep s = Inr (r, s') \<Longrightarrow> next_timestep_called s'"
  by (auto simp: Sample_GetNextTimestep_def Let_def
           split: if_splits sum.splits list.splits)

lemma timesteps_keep_flag:
  "timesteps n s = Inr (rs, s') \<Longrightarrow> next_timestep_called s \<Longrightarrow> next_timestep_called s'"
proof (induction n arbitrary: s rs s')
  case 0
  then show ?case by simp
next
  case (Suc n)
  from Suc.prems(1) obtain r s1 rs1 where
    step: "Sample_GetNextTimestep s = Inr (r, s1)" and
    rest: "timesteps n s1 = Inr (rs1, s')"
    by (auto split: sum.splits prod.splits)
  from step have "next_timestep_called s1" by (rule GetNextTimestep_sets_flag)
  with rest show ?case by (rule Suc.IH)
qed

lemma timesteps_set_flag:
  "0 < n \<Longrightarrow> timesteps n s = Inr (rs, s') \<Longrightarrow> next_timestep_called s'"
proof (cases n)
  case 0
  assume "0 < n" with 0 show ?thesis by simp
next
  case (Suc m)
  assume run: "timesteps n s = Inr (rs, s')"
  with Suc obtain r s1 rs1 where
    step: "Sample_GetNextTimestep s = Inr (r, s1)" and
    rest: "timesteps m s1 = Inr (rs1, s')"
    by (auto split: sum.splits prod.splits)
  from step have "next_timestep_called s1" by (rule GetNextTimestep_sets_flag)
  with rest show ?thesis by (rule timesteps_keep_flag)
qed

text \<open>
  Claim C10. Once \<open>GetNextTimestep\<close> has returned at least once on a sample (\<open>n > 0\<close>
  calls in a row, none of which stopped the process), \<open>AsBatchedTimesteps\<close> on that
  sample stops the process at its first check: the two ways of consuming a sample
  cannot be mixed.
\<close>

theorem AsBatchedTimesteps_after_GetNextTimestep_aborts:
  "0 < n \<Longrightarrow> timesteps n s = Inr (rs, s') \<Longrightarrow>
   Sample_AsBatchedTimesteps s' = Inl CHECK_failed"
  using timesteps_set_flag [of n s rs s']
  by (simp add: Sample_AsBatchedTimesteps_def)

theorem AsBatchedTimesteps_after_GetNextTimestep_aborts_witness:
  "0 < (1::nat) \<and>
   timesteps 1 \<lparr>key = 7, probability = 1, table_size = 3, num_timesteps = 2,
       num_data_tensors = 1, chunks = [[Batch [Scalar (I64 10), Scalar (I64 11)]]],
       next_timestep_index = 0, next_timestep_called = False\<rparr>
     = Inr ([[Scalar (U64 7), Scalar (F64 1), Scalar (I64 3), Scalar (I64 10)]],
       \<lparr>key = 7, probability = 1, table_size = 3, num_timesteps = 2,
        num_data_tensors = 1, chunks = [[Batch [Scalar (I64 10), Scalar (I64 11)]]],
        next_timestep_index = 1, next_timestep_called = True\<rparr>) \<and>
   Sample_AsBatchedTimesteps
     \<lparr>key = 7, probability = 1, table_size = 3, num_timesteps = 2,
      num_data_tensors = 1, chunks = [[Batch [Scalar (I64 10), Scalar (I64 11)]]],
      next_timestep_index = 1, next_timestep_called = True\<rparr> = Inl CHECK_failed"
proof -
  have run:
    "timesteps 1 \<lparr>key = 7, probability = 1, table_size = 3, num_timesteps = 2,
         num_data_tensors = 1, chunks = [[Batch [Scalar (I64 10), Scalar (I64 11)]]],
         next_timestep_index = 0, next_timestep_called = False\<rparr>
     = Inr ([[Scalar (U64 7), Scalar (F64 1), Scalar (I64 3), Scalar (I64 10)]],
       \<lparr>key = 7, probability = 1, table_size = 3, num_timesteps = 2,
        num_data_tensors = 1, chunks = [[Batch [Scalar (I64 10), Scalar (I64 11)]]],
        next_timestep_index = 1, next_timestep_called = True\<rparr>)"
    by (simp add: Sample_GetNextTimestep_def is_end_of_sample_def)
  show ?thesis
    using AsBatchedTimesteps_after_GetNextTimestep_aborts [OF _ run] run by simp
qed

section \<open>Properties of ReplaySampler\<close>

lemma reserved_update:
  "i < length ws \<Longrightarrow> reserved (ws[i := w]) = reserved ws - inflight (ws ! i) + inflight w"
  unfolding reserved_def
  by (induction ws arbitrary: i) (auto split: nat.splits)

lemma reserved_closed:
  "reserved (map (\<lambda>w. w\<lparr>worker_closed := True\<rparr>) ws) = reserved ws"
  unfolding reserved_def by (induction ws) (auto simp: inflight_def)

lemma reserved_nonneg: "list_all fetching_ok ws \<Longrightarrow> 0 \<le> reserved ws"
  unfolding reserved_def
  by (induction ws) (auto simp: inflight_def fetching_ok_def split: fetch.splits)

lemma list_all_update: "list_all P ws \<Longrightarrow> P w \<Longrightarrow> list_all P (ws[i := w])"
  by (induction ws arbitrary: i) (auto split: nat.splits)

lemma idle_reserved: "list_all (\<lambda>w. worker_at w = Idle) ws \<Longrightarrow> reserved ws = 0"
  unfolding reserved_def by (induction ws) (auto simp: inflight_def)

text \<open>The clauses of the contract, one by one.\<close>

lemma contract_new:
  "queue_contract Q \<Longrightarrow> Queue_size Q (Queue_new Q n) = 0"
  by (simp add: queue_contract_def)

lemma contract_Close:
  assumes "queue_contract Q"
  shows "Queue_closed Q (Queue_Close Q q)" "Queue_size Q (Queue_Close Q q) \<le> Queue_size Q q"
  using assms unfolding queue_contract_def by blast+

lemma contract_Pop_closed:
  "queue_contract Q \<Longrightarrow> Queue_closed Q q \<Longrightarrow> \<exists>q'. Queue_Pop Q q = Some (None, q')"
  unfolding queue_contract_def by blast

lemma contract_Pop:
  assumes "queue_contract Q" "Queue_Pop Q q = Some (r, q')"
  shows "int (Queue_size Q q') + (if r = None then 0 else 1) \<le> int (Queue_size Q q)"
    "Queue_closed Q q \<Longrightarrow> Queue_closed Q q' \<and> r = None"
proof -
  have a: "\<forall>q r q'. Queue_Pop Q q = Some (r, q') \<longrightarrow>
             Queue_size Q q' + (if r = None then 0 else 1) \<le> Queue_size Q q"
    and b: "\<forall>q r q'. Queue_Pop Q q = Some (r, q') \<longrightarrow> Queue_closed Q q \<longrightarrow> Queue_closed Q q'"
    using assms(1) unfolding queue_contract_def by blast+
  from a assms(2) have "Queue_size Q q' + (if r = None then 0 else 1) \<le> Queue_size Q q"
    by blast
  then show "int (Queue_size Q q') + (if r = None then 0 else 1) \<le> int (Queue_size Q q)"
    by (simp split: if_splits)
  assume c: "Queue_closed Q q"
  with contract_Pop_closed [OF assms(1)] assms(2) have "r = None" by fastforce
  moreover from b assms(2) c have "Queue_closed Q q'" by blast
  ultimately show "Queue_closed Q q' \<and> r = None" by simp
qed

lemma contract_Push:
  assumes "queue_contract Q" "Queue_Push Q x q = Some (b, q')"
  shows "int (Queue_size Q q') \<le> int (Queue_size Q q) + (if b then 1 else 0)"
    "b \<Longrightarrow> \<not> Queue_closed Q q"
    "Queue_closed Q q \<Longrightarrow> Queue_closed Q q'"
proof -
  have a: "\<forall>q x b q'. Queue_Push Q x q = Some (b, q') \<longrightarrow>
             Queue_size Q q' \<le> Queue_size Q q + (if b then 1 else 0)"
    and b: "\<forall>q x q'. Queue_Push Q x q = Some (True, q') \<longrightarrow> \<not> Queue_closed Q q"
    and c: "\<forall>q x b q'. Queue_Push Q x q = Some (b, q') \<longrightarrow> Queue_closed Q q \<longrightarrow> Queue_closed Q q'"
    using assms(1) unfolding queue_contract_def by blast+
  from a assms(2) have "Queue_size Q q' \<le> Queue_size Q q + (if b then 1 else 0)" by blast
  then show "int (Queue_size Q q') \<le> int (Queue_size Q q) + (if b then 1 else 0)"
    by (simp split: if_splits)
  show "b \<Longrightarrow> \<not> Queue_closed Q q" using b assms(2) by auto
  show "Queue_closed Q q \<Longrightarrow> Queue_closed Q q'" using c assms(2) by blast
qed

lemma buffer_queue_contract: "queue_contract (buffer_queue f)"
  unfolding queue_contract_def buffer_queue_def
  by (auto split: if_splits list.splits)

lemma new_fields:
  assumes "ReplaySampler_new Q c opts = Inr st"
  shows "0 < max_samples st" "returned st = 0" "requested st = 0" "active_sample st = None"
    "\<exists>n. samples st = Queue_new Q n"
    "list_all (\<lambda>w. worker_at w = Idle) (workers st)"
    "\<not> closed st" "stream_status st = OK"
proof -
  obtain ms mps q ws where
    st: "st = \<lparr>max_samples = ms, max_samples_per_stream = mps, returned = 0,
                 requested = 0, closed = False, stream_status = OK,
                 active_sample = None,
                 samples = Queue_new Q q,
                 workers = replicate ws \<lparr>worker_closed = False, worker_at = Idle\<rparr>\<rparr>"
    and ms: "0 < ms"
    using assms unfolding ReplaySampler_new_def Let_def
    by (simp split: if_splits; blast)
  show "0 < max_samples st" "returned st = 0" "requested st = 0" "active_sample st = None"
    "\<exists>n. samples st = Queue_new Q n"
    "list_all (\<lambda>w. worker_at w = Idle) (workers st)"
    "\<not> closed st" "stream_status st = OK"
    using ms by (auto simp: st list_all_iff)
qed

lemma inv_new:
  assumes C: "queue_contract Q" and new: "ReplaySampler_new Q c opts = Inr st"
  shows "sampler_inv Q st"
proof -
  note f = new_fields [OF new]
  have a: "list_all fetching_ok (workers st)" "list_all fetching_none (workers st)"
    using f(6) by (auto simp: list_all_iff fetching_ok_def fetching_none_def)
  from f(5) have "Queue_size Q (samples st) = 0" using contract_new [OF C] by auto
  then have b: "fetched Q st = 0" using f by (simp add: fetched_def unfinished_def)
  have c: "reserved (workers st) = 0" using f(6) by (rule idle_reserved)
  show ?thesis unfolding sampler_inv_def using f(1,2,3) a b c by simp
qed

lemma unfinished_range: "0 \<le> unfinished st" "unfinished st \<le> 1"
  by (simp_all add: unfinished_def split: option.splits)

lemma count_returned_fields:
  "max_samples (count_returned Q st) = max_samples st"
  "max_samples_per_stream (count_returned Q st) = max_samples_per_stream st"
  "requested (count_returned Q st) = requested st"
  "workers (count_returned Q st) = workers st"
  "active_sample (count_returned Q st) = active_sample st"
  "closed (count_returned Q st) = closed st"
  "stream_status (count_returned Q st) = stream_status st"
  "returned (count_returned Q st) = returned st + 1"
  by (simp_all add: count_returned_def Let_def)

lemma count_returned_samples:
  assumes C: "queue_contract Q"
  shows "Queue_size Q (samples (count_returned Q st)) \<le> Queue_size Q (samples st)"
    "returned st + 1 = max_samples st \<Longrightarrow> Queue_closed Q (samples (count_returned Q st))"
  using contract_Close [OF C, of "samples st"]
  by (simp_all add: count_returned_def Let_def)

lemma count_returned_unfinished:
  "unfinished (count_returned Q st) = unfinished st"
  by (simp add: unfinished_def count_returned_fields)

lemma PopNextSample_Returns:
  assumes "PopNextSample Q st = Returns (c, popped, st1)"
  shows "\<exists>q. Queue_Pop Q (samples st) = Some (popped, q) \<and> st1 = st\<lparr>samples := q\<rparr> \<and>
           (popped \<noteq> None \<longrightarrow> c = OK) \<and>
           (popped = None \<longrightarrow>
              c = (if returned st = max_samples st then OUT_OF_RANGE
                   else if closed st then CANCELLED
                   else FromGrpcStatus Q (stream_status st)))"
  using assms
  by (auto simp: PopNextSample_def split: if_splits option.splits)

lemma client_effect_refl: "client_effect Q st st"
  by (simp add: client_effect_def)

lemma client_effect_trans:
  assumes "client_effect Q st st1" "client_effect Q st1 st2"
  shows "client_effect Q st st2"
  using assms unfolding client_effect_def by auto

lemma pop_failed_effect:
  assumes C: "queue_contract Q" and p: "Queue_Pop Q (samples st) = Some (None, q)"
  shows "client_effect Q st (st\<lparr>samples := q\<rparr>)"
  using contract_Pop [OF C p]
  by (simp add: client_effect_def fetched_def unfinished_def)

lemma GetNextSample_effect:
  assumes C: "queue_contract Q" and r: "GetNextSample Q st = Returns (c, data, st')"
  shows "client_effect Q st st'"
proof -
  from r obtain c1 popped st1 where
    pop: "PopNextSample Q st = Returns (c1, popped, st1)"
    by (auto simp: GetNextSample_def split: call.splits)
  from PopNextSample_Returns [OF pop] obtain q where
    p: "Queue_Pop Q (samples st) = Some (popped, q)" and st1: "st1 = st\<lparr>samples := q\<rparr>"
    and ok: "popped \<noteq> None \<Longrightarrow> c1 = OK"
    by blast
  show ?thesis
  proof (cases popped)
    case None
    with r pop have "st' = st1"
      by (auto simp: GetNextSample_def split: if_splits)
    with pop_failed_effect [OF C] p None st1 show ?thesis by simp
  next
    case (Some s)
    with ok have "c1 = OK" by simp
    with r pop Some have st': "st' = count_returned Q st1"
      by (auto simp: GetNextSample_def split: sum.splits)
    note f = contract_Pop [OF C p]
    note g = count_returned_samples [OF C, of st1]
    have u: "unfinished st' = unfinished st"
      unfolding st' st1 count_returned_unfinished by (simp add: unfinished_def)
    have sz: "int (Queue_size Q (samples st')) + 1 \<le> int (Queue_size Q (samples st))"
      using f(1) g(1) Some by (simp add: st' st1)
    have same: "max_samples st' = max_samples st"
      "max_samples_per_stream st' = max_samples_per_stream st"
      "requested st' = requested st" "workers st' = workers st"
      "returned st' = returned st + 1"
      by (simp_all add: st' st1 count_returned_fields)
    have cl: "returned st + 1 = max_samples st \<Longrightarrow> Queue_closed Q (samples st')"
      using g(2) by (simp add: st' st1)
    show ?thesis
      unfolding client_effect_def fetched_def same u using sz cl by simp
  qed
qed

lemma GetNextTimestep_not_end:
  "Sample_GetNextTimestep a = Inr (d, a') \<Longrightarrow> \<not> is_end_of_sample a"
  by (auto simp: Sample_GetNextTimestep_def split: if_splits)

lemma timestep_effect:
  assumes C: "queue_contract Q" and a: "active_sample st1 = Some a"
    and ts: "Sample_GetNextTimestep a = Inr (d, a')"
    and st': "st' = (if is_end_of_sample a' then count_returned Q (st1\<lparr>active_sample := Some a'\<rparr>)
                    else st1\<lparr>active_sample := Some a'\<rparr>)"
  shows "client_effect Q st1 st'"
proof -
  have ne: "\<not> is_end_of_sample a" using ts by (rule GetNextTimestep_not_end)
  have u1: "unfinished st1 = 1" using a ne by (simp add: unfinished_def)
  show ?thesis
  proof (cases "is_end_of_sample a'")
    case True
    let ?m = "st1\<lparr>active_sample := Some a'\<rparr>"
    note g = count_returned_samples [OF C, of ?m]
    have "unfinished st' = unfinished ?m"
      using True by (simp add: st' count_returned_unfinished)
    then have u: "unfinished st' = 0"
      using True by (simp add: unfinished_def)
    have sz: "int (Queue_size Q (samples st')) \<le> int (Queue_size Q (samples st1))"
      using g(1) True by (simp add: st')
    have same: "max_samples st' = max_samples st1"
      "max_samples_per_stream st' = max_samples_per_stream st1"
      "requested st' = requested st1" "workers st' = workers st1"
      "returned st' = returned st1 + 1"
      using True by (simp_all add: st' count_returned_fields)
    have cl: "returned st1 + 1 = max_samples st1 \<Longrightarrow> Queue_closed Q (samples st')"
      using g(2) True by (simp add: st')
    show ?thesis
      unfolding client_effect_def fetched_def same u u1 using sz cl by simp
  next
    case False
    then show ?thesis
      unfolding client_effect_def st' fetched_def unfinished_def
      by (simp add: a ne)
  qed
qed

lemma MaybeSampleNext_effect:
  assumes C: "queue_contract Q" and m: "MaybeSampleNext Q st = Returns (c0, st1)"
  shows "client_effect Q st st1"
proof (cases "active_sample st \<noteq> None \<and> \<not> is_end_of_sample (the (active_sample st))")
  case True
  with m have "st1 = st" by (simp add: MaybeSampleNext_def)
  then show ?thesis by (simp add: client_effect_refl)
next
  case False
  with m obtain popped st0 where
    pop: "PopNextSample Q st = Returns (c0, popped, st0)" and
    st1: "st1 = (case popped of None \<Rightarrow> st0 | Some s \<Rightarrow> st0\<lparr>active_sample := Some s\<rparr>)"
    by (auto simp: MaybeSampleNext_def split: call.splits)
  from PopNextSample_Returns [OF pop] obtain q where
    p: "Queue_Pop Q (samples st) = Some (popped, q)" and st0: "st0 = st\<lparr>samples := q\<rparr>"
    by blast
  show ?thesis
  proof (cases popped)
    case None
    with pop_failed_effect [OF C] p st0 st1 show ?thesis by simp
  next
    case (Some s)
    note f = contract_Pop [OF C p]
    have u0: "unfinished st = 0"
      using False by (auto simp: unfinished_def split: option.splits)
    have sz: "int (Queue_size Q (samples st1)) + 1 \<le> int (Queue_size Q (samples st))"
      using f(1) Some by (simp add: st1 st0)
    have same: "max_samples st1 = max_samples st"
      "max_samples_per_stream st1 = max_samples_per_stream st"
      "requested st1 = requested st" "workers st1 = workers st"
      "returned st1 = returned st"
      by (simp_all add: st1 st0 Some)
    have op: "\<not> Queue_closed Q (samples st)" using f(2) Some by auto
    show ?thesis
      unfolding client_effect_def fetched_def same u0
      using sz op unfinished_range [of st1] by simp
  qed
qed

lemma GetNextTimestep_effect:
  assumes C: "queue_contract Q" and r: "GetNextTimestep Q st = Returns (c, data, st')"
  shows "client_effect Q st st'"
proof -
  from r obtain c0 st1 where
    m: "MaybeSampleNext Q st = Returns (c0, st1)"
    by (auto simp: GetNextTimestep_def split: call.splits)
  have head: "client_effect Q st st1" using C m by (rule MaybeSampleNext_effect)
  show ?thesis
  proof (cases "c0 = OK")
    case False
    with r m have "st' = st1" by (simp add: GetNextTimestep_def)
    with head show ?thesis by simp
  next
    case True
    with r m obtain a d a' where
      a: "active_sample st1 = Some a" and
      ts: "Sample_GetNextTimestep a = Inr (d, a')" and
      st': "st' = (if is_end_of_sample a' then count_returned Q (st1\<lparr>active_sample := Some a'\<rparr>)
                    else st1\<lparr>active_sample := Some a'\<rparr>)"
      by (auto simp: GetNextTimestep_def Let_def split: option.splits sum.splits if_splits)
    have tail: "client_effect Q st1 st'" using C a ts st' by (rule timestep_effect)
    from head tail show ?thesis by (rule client_effect_trans)
  qed
qed

lemma client_effect_inv:
  assumes "sampler_inv Q st" "client_effect Q st st'"
  shows "sampler_inv Q st'"
  using assms unfolding sampler_inv_def client_effect_def
  by (auto split: if_splits)

lemma samples_effect:
  assumes "int (Queue_size Q q) \<le> int (Queue_size Q (samples st))"
    "Queue_closed Q (samples st) \<Longrightarrow> Queue_closed Q q"
  shows "client_effect Q st (st\<lparr>samples := q\<rparr>)"
  using assms by (simp add: client_effect_def fetched_def unfinished_def)

lemma Close_inv:
  assumes C: "queue_contract Q" and inv: "sampler_inv Q st"
  shows "sampler_inv Q (Close Q st)"
proof (cases "closed st")
  case True
  with inv show ?thesis by (simp add: Close_def)
next
  case False
  note g = contract_Close [OF C, of "samples st"]
  have w: "list_all fetching_ok (map (\<lambda>w. w\<lparr>worker_closed := True\<rparr>) ws) = list_all fetching_ok ws"
       "list_all fetching_none (map (\<lambda>w. w\<lparr>worker_closed := True\<rparr>) ws) = list_all fetching_none ws"
    for ws
    by (simp_all add: list_all_iff fetching_ok_def fetching_none_def)
  have same: "max_samples (Close Q st) = max_samples st"
    "max_samples_per_stream (Close Q st) = max_samples_per_stream st"
    "returned (Close Q st) = returned st"
    "requested (Close Q st) = requested st"
    "reserved (workers (Close Q st)) = reserved (workers st)"
    "list_all fetching_ok (workers (Close Q st)) = list_all fetching_ok (workers st)"
    "list_all fetching_none (workers (Close Q st)) = list_all fetching_none (workers st)"
    using False by (simp_all add: Close_def reserved_closed w)
  have f: "fetched Q (Close Q st) \<le> fetched Q st"
    using False g(2) by (simp add: Close_def fetched_def unfinished_def)
  have cl: "Queue_closed Q (samples (Close Q st))"
    using False g(1) by (simp add: Close_def)
  show ?thesis
    using inv f cl unfolding sampler_inv_def same
    by (auto split: if_splits)
qed

lemma finish_fetch_inv:
  assumes C: "queue_contract Q" and inv: "sampler_inv Q st" and i: "i < length (workers st)"
    and at: "worker_at (workers st ! i) = Fetching n k"
  shows "sampler_inv Q (finish_fetch Q i n k status st)"
proof -
  let ?st' = "finish_fetch Q i n k status st"
  note g = contract_Close [OF C, of "samples st"]
  have fl: "inflight (workers st ! i) = n - k" by (simp add: inflight_def at)
  obtain w' where
    ws: "workers ?st' = (workers st)[i := w']" and
    w': "inflight w' = 0" "fetching_ok w'" "fetching_none w'"
    by (cases "stream_status st = OK \<and> status \<noteq> OK \<and> status \<noteq> UNAVAILABLE")
       (auto simp: finish_fetch_def Let_def inflight_def fetching_ok_def fetching_none_def)
  have same: "max_samples ?st' = max_samples st"
    "max_samples_per_stream ?st' = max_samples_per_stream st"
    "returned ?st' = returned st"
    "requested ?st' = requested st - (n - k)"
    by (simp_all add: finish_fetch_def Let_def)
  have f: "fetched Q ?st' \<le> fetched Q st"
    using g(2) by (simp add: finish_fetch_def Let_def fetched_def unfinished_def)
  have cl: "Queue_closed Q (samples st) \<Longrightarrow> Queue_closed Q (samples ?st')"
    using g(1) by (simp add: finish_fetch_def Let_def)
  have res: "reserved (workers ?st') = reserved (workers st) - (n - k)"
    unfolding ws using reserved_update [OF i, of w'] fl w'(1) by simp
  have all: "list_all fetching_ok (workers st) \<Longrightarrow> list_all fetching_ok (workers ?st')"
       "list_all fetching_none (workers st) \<Longrightarrow> list_all fetching_none (workers ?st')"
    unfolding ws using w' by (simp_all add: list_all_update)
  have nk: "list_all fetching_ok (workers st) \<Longrightarrow> k \<le> n"
    using i at by (auto simp: list_all_length fetching_ok_def)
  show ?thesis
    using inv all f nk unfolding sampler_inv_def same res
    by (auto split: if_splits dest: cl)
qed

lemma worker_loop_inv:
  assumes inv: "sampler_inv Q st" and r: "worker_loop i st = Returns st'"
  shows "sampler_inv Q st'"
proof -
  from r have i: "i < length (workers st)" and at: "worker_at (workers st ! i) = Idle"
    by (auto simp: worker_loop_def split: if_splits)
  have fl: "inflight (workers st ! i) = 0" by (simp add: inflight_def at)
  show ?thesis
  proof (cases "should_stop_workers st")
    case True
    with r i at have st': "st' = st\<lparr>workers := (workers st)[i := (workers st ! i)\<lparr>worker_at := Exited\<rparr>]\<rparr>"
      by (simp add: worker_loop_def)
    have res: "reserved (workers st') = reserved (workers st)"
      unfolding st' using reserved_update [OF i, of "(workers st ! i)\<lparr>worker_at := Exited\<rparr>"] fl
      by (simp add: inflight_def)
    have all: "list_all fetching_ok (workers st) \<Longrightarrow> list_all fetching_ok (workers st')"
       "list_all fetching_none (workers st) \<Longrightarrow> list_all fetching_none (workers st')"
      unfolding st' by (simp_all add: list_all_update fetching_ok_def fetching_none_def)
    have same: "max_samples st' = max_samples st"
      "max_samples_per_stream st' = max_samples_per_stream st"
      "returned st' = returned st" "fetched Q st' = fetched Q st"
      "requested st' = requested st" "samples st' = samples st"
      by (simp_all add: st' fetched_def unfinished_def)
    show ?thesis
      using inv all unfolding sampler_inv_def same res by (auto split: if_splits)
  next
    case False
    define n where "n = min (max_samples_per_stream st) (max_samples st - requested st)"
    from False r i at have lt: "requested st < max_samples st"
      by (auto simp: worker_loop_def split: if_splits)
    from False r i at lt have st': "st' = st\<lparr>requested := requested st + n,
            workers := (workers st)[i := (workers st ! i)\<lparr>worker_at := Fetching n 0\<rparr>]\<rparr>"
      by (simp add: worker_loop_def Let_def n_def)
    have res: "reserved (workers st') = reserved (workers st) + n"
      unfolding st' using reserved_update [OF i, of "(workers st ! i)\<lparr>worker_at := Fetching n 0\<rparr>"] fl
      by (simp add: inflight_def)
    have all: "list_all fetching_ok (workers st) \<Longrightarrow> 0 \<le> n \<Longrightarrow> list_all fetching_ok (workers st')"
       "list_all fetching_none (workers st) \<Longrightarrow> n \<le> 0 \<Longrightarrow> list_all fetching_none (workers st')"
      unfolding st' by (simp_all add: list_all_update fetching_ok_def fetching_none_def)
    have same: "max_samples st' = max_samples st"
      "max_samples_per_stream st' = max_samples_per_stream st"
      "returned st' = returned st" "fetched Q st' = fetched Q st"
      "requested st' = requested st + n" "samples st' = samples st"
      by (simp_all add: st' fetched_def unfinished_def)
    have n1: "0 < max_samples_per_stream st \<Longrightarrow> 0 \<le> n" using lt by (simp add: n_def)
    have n2: "\<not> 0 < max_samples_per_stream st \<Longrightarrow> n \<le> 0" by (simp add: n_def)
    have n3: "requested st + n \<le> max_samples st" by (simp add: n_def)
    show ?thesis
      using inv all n1 n2 n3 unfolding sampler_inv_def same res by (auto split: if_splits)
  qed
qed

lemma worker_finish_inv:
  assumes C: "queue_contract Q" and inv: "sampler_inv Q st"
    and r: "worker_finish Q i status st = Returns st'"
  shows "sampler_inv Q st'"
proof -
  from r obtain n k where
    i: "i < length (workers st)" and at: "worker_at (workers st ! i) = Fetching n k" and
    st': "st' = finish_fetch Q i n k status st"
    by (auto simp: worker_finish_def split: if_splits fetch.splits)
  show ?thesis unfolding st' using C inv i at by (rule finish_fetch_inv)
qed

lemma worker_push_inv:
  assumes C: "queue_contract Q" and inv: "sampler_inv Q st"
    and r: "worker_push Q i k p n cs st = Returns st'"
  shows "sampler_inv Q st'"
proof -
  from r obtain num j s b q where
    i: "i < length (workers st)" and at: "worker_at (workers st ! i) = Fetching num j" and
    lt: "j < num" and new: "Sample_new k p n cs = Inr s" and
    push: "Queue_Push Q s (samples st) = Some (b, q)"
    by (auto simp: worker_push_def split: if_splits fetch.splits sum.splits option.splits)
  note f = contract_Push [OF C push]
  have fl: "inflight (workers st ! i) = num - j" by (simp add: inflight_def at)
  show ?thesis
  proof (cases b)
    case False
    let ?m = "st\<lparr>samples := q\<rparr>"
    from r i at lt new push False have st': "st' = finish_fetch Q i num j CANCELLED ?m"
      by (simp add: worker_push_def)
    have "client_effect Q st ?m" using f(1,3) False by (intro samples_effect) simp_all
    with inv have m: "sampler_inv Q ?m" by (rule client_effect_inv)
    have "sampler_inv Q (finish_fetch Q i num j CANCELLED ?m)"
      using C m by (rule finish_fetch_inv) (simp_all add: i at)
    then show ?thesis by (simp add: st')
  next
    case True
    with r i at lt new push have
      st': "st' = st\<lparr>samples := q,
                workers := (workers st)[i := (workers st ! i)\<lparr>worker_at := Fetching num (j + 1)\<rparr>]\<rparr>"
      by (simp add: worker_push_def)
    have res: "reserved (workers st') = reserved (workers st) - 1"
      unfolding st'
      using reserved_update [OF i, of "(workers st ! i)\<lparr>worker_at := Fetching num (j + 1)\<rparr>"] fl
      by (simp add: inflight_def)
    have ok: "list_all fetching_ok (workers st) \<Longrightarrow> list_all fetching_ok (workers st')"
    proof -
      assume a: "list_all fetching_ok (workers st)"
      then have "0 \<le> j" using i at by (auto simp: list_all_length fetching_ok_def)
      with a lt show ?thesis
        unfolding st' by (simp add: list_all_update fetching_ok_def)
    qed
    have none: "\<not> list_all fetching_none (workers st)"
      using i at lt by (auto simp: list_all_length fetching_none_def)
    have same: "max_samples st' = max_samples st"
      "max_samples_per_stream st' = max_samples_per_stream st"
      "returned st' = returned st"
      "requested st' = requested st"
      by (simp_all add: st')
    have fe: "fetched Q st' \<le> fetched Q st + 1"
      using f(1) True by (simp add: st' fetched_def unfinished_def)
    have op: "\<not> Queue_closed Q (samples st)" using f(2) True by simp
    show ?thesis
      using inv ok none fe op unfolding sampler_inv_def same res by (auto split: if_splits)
  qed
qed

lemma step_inv:
  assumes C: "queue_contract Q" and inv: "sampler_inv Q st" and s: "step Q e st = Returns st'"
  shows "sampler_inv Q st'"
proof (cases e)
  case Call_GetNextSample
  with s obtain c d where "GetNextSample Q st = Returns (c, d, st')"
    by (auto split: call.splits)
  with C have "client_effect Q st st'" by (rule GetNextSample_effect)
  with inv show ?thesis by (rule client_effect_inv)
next
  case Call_GetNextTimestep
  with s obtain c d where "GetNextTimestep Q st = Returns (c, d, st')"
    by (auto split: call.splits)
  with C have "client_effect Q st st'" by (rule GetNextTimestep_effect)
  with inv show ?thesis by (rule client_effect_inv)
next
  case Call_Close
  with C inv s show ?thesis by (auto intro: Close_inv)
next
  case (Worker_Loop i)
  with inv s show ?thesis by (auto intro: worker_loop_inv)
next
  case (Worker_Push i k p n cs)
  with C inv s show ?thesis by (auto intro: worker_push_inv)
next
  case (Worker_Finish i status)
  with C inv s show ?thesis by (auto intro: worker_finish_inv)
qed

lemma run_inv:
  "queue_contract Q \<Longrightarrow> run Q es st = Some st' \<Longrightarrow> sampler_inv Q st \<Longrightarrow> sampler_inv Q st'"
proof (induction es arbitrary: st)
  case Nil
  then show ?case by simp
next
  case (Cons e es)
  from Cons.prems(2) obtain st1 where
    s: "step Q e st = Returns st1" and r: "run Q es st1 = Some st'"
    by (auto split: call.splits)
  from Cons.prems(1,3) s have "sampler_inv Q st1" by (rule step_inv)
  with Cons.prems(1) r show ?case by (rule Cons.IH)
qed

lemma exhausted_state:
  assumes inv: "sampler_inv Q st" and ex: "returned st = max_samples st"
  shows "Queue_closed Q (samples st)" "unfinished st = 0"
proof -
  show "Queue_closed Q (samples st)" using inv ex by (simp add: sampler_inv_def)
  note u = unfinished_range [of st]
  show "unfinished st = 0"
  proof (cases "0 < max_samples_per_stream st")
    case True
    with inv have a: "list_all fetching_ok (workers st)"
      "fetched Q st + reserved (workers st) \<le> requested st" "requested st \<le> max_samples st"
      by (simp_all add: sampler_inv_def)
    from a(1) have "0 \<le> reserved (workers st)" by (rule reserved_nonneg)
    with a(2,3) ex u show ?thesis by (simp add: fetched_def)
  next
    case False
    with inv have "fetched Q st \<le> 0" "0 < max_samples st" "0 \<le> returned st"
      by (simp_all add: sampler_inv_def)
    with ex u show ?thesis by (simp add: fetched_def)
  qed
qed

text \<open>
  \<open>returned_\<close> stays between 0 and \<open>max_samples_\<close>: the 64-bit counter does not wrap.
\<close>

lemma returned_bounded:
  assumes inv: "sampler_inv Q st"
  shows "0 \<le> returned st \<and> returned st \<le> max_samples st"
proof -
  note u = unfinished_range [of st]
  show ?thesis
  proof (cases "0 < max_samples_per_stream st")
    case True
    with inv have a: "list_all fetching_ok (workers st)"
      "fetched Q st + reserved (workers st) \<le> requested st" "requested st \<le> max_samples st"
      "0 \<le> returned st"
      by (simp_all add: sampler_inv_def)
    from a(1) have "0 \<le> reserved (workers st)" by (rule reserved_nonneg)
    with a(2,3,4) u show ?thesis by (simp add: fetched_def)
  next
    case False
    with inv have "fetched Q st \<le> 0" "0 < max_samples st" "0 \<le> returned st"
      by (simp_all add: sampler_inv_def)
    with u show ?thesis by (simp add: fetched_def)
  qed
qed

text \<open>
  Claim C8. For every queue that meets the contract, in every state a sampler reaches
  from its constructor by calls of the client and steps of its workers, once
  \<open>returned_\<close> has reached \<open>max_samples_\<close> (\<open>max_samples\<close> samples have been
  returned), \<open>PopNextSample\<close> returns \<open>OUT_OF_RANGE\<close>, and so do \<open>GetNextSample\<close>
  and \<open>GetNextTimestep\<close>, which get their status from it; nothing of the sampler but
  the queue that refused the \<open>Pop\<close> is touched. The status is produced by the
  sampler's own \<open>PopNextSample\<close>.
\<close>

theorem max_samples_exhausted:
  assumes C: "queue_contract Q"
    and new: "ReplaySampler_new Q c opts = Inr st0"
    and run: "run Q es st0 = Some st"
    and ex: "returned st = max_samples st"
  shows "\<exists>q. Queue_Pop Q (samples st) = Some (None, q) \<and>
           PopNextSample Q st = Returns (OUT_OF_RANGE, None, st\<lparr>samples := q\<rparr>) \<and>
           GetNextSample Q st = Returns (OUT_OF_RANGE, None, st\<lparr>samples := q\<rparr>) \<and>
           GetNextTimestep Q st = Returns (OUT_OF_RANGE, None, st\<lparr>samples := q\<rparr>)"
proof -
  have "sampler_inv Q st0" using C new by (rule inv_new)
  with C run have inv: "sampler_inv Q st" by (rule run_inv)
  note e = exhausted_state [OF inv ex]
  from contract_Pop_closed [OF C e(1)] obtain q where
    q: "Queue_Pop Q (samples st) = Some (None, q)" by blast
  have pop: "PopNextSample Q st = Returns (OUT_OF_RANGE, None, st\<lparr>samples := q\<rparr>)"
    using q ex by (simp add: PopNextSample_def)
  have m: "MaybeSampleNext Q st = Returns (OUT_OF_RANGE, st\<lparr>samples := q\<rparr>)"
    using e(2) pop by (auto simp: MaybeSampleNext_def unfinished_def split: option.splits if_splits)
  show ?thesis
    using q pop m by (simp add: GetNextSample_def GetNextTimestep_def)
qed

theorem max_samples_exhausted_witness:
  "\<exists>st0 st q.
     queue_contract (buffer_queue id) \<and>
     ReplaySampler_new (buffer_queue id)
       \<lparr>kUnlimitedMaxSamples = -1, kAutoSelectValue = -1, kDefaultNumWorkers = 1,
        kDefaultMaxSamplesPerStream = 10000\<rparr>
       \<lparr>opt_max_samples = 2, opt_max_in_flight_samples_per_worker = 1,
        opt_num_workers = 1, opt_max_samples_per_stream = -1\<rparr> = Inr st0 \<and>
     run (buffer_queue id)
       [Worker_Loop 0, Worker_Push 0 1 1 5 [[Batch [Scalar (I64 10)]]], Call_GetNextSample,
        Worker_Push 0 2 1 5 [[Batch [Scalar (I64 20)]]], Call_GetNextTimestep] st0 = Some st \<and>
     max_samples st = 2 \<and> returned st = max_samples st \<and>
     PopNextSample (buffer_queue id) st = Returns (OUT_OF_RANGE, None, st\<lparr>samples := q\<rparr>) \<and>
     GetNextSample (buffer_queue id) st = Returns (OUT_OF_RANGE, None, st\<lparr>samples := q\<rparr>) \<and>
     GetNextTimestep (buffer_queue id) st = Returns (OUT_OF_RANGE, None, st\<lparr>samples := q\<rparr>)"
proof -
  define st0 :: "sample bounded_buffer replay_sampler" where "st0 =
    \<lparr>max_samples = 2, max_samples_per_stream = 10000, returned = 0,
     requested = 0, closed = False, stream_status = OK, active_sample = None,
     samples = \<lparr>buffer = [], capacity = 1, buffer_closed = False\<rparr>,
     workers = [\<lparr>worker_closed = False, worker_at = Idle\<rparr>]\<rparr>"
  define st :: "sample bounded_buffer replay_sampler" where "st =
    \<lparr>max_samples = 2, max_samples_per_stream = 10000, returned = 2,
     requested = 2, closed = False, stream_status = OK,
     active_sample =
       Some \<lparr>key = 2, probability = 1, table_size = 5, num_timesteps = 1,
             num_data_tensors = 1, chunks = [], next_timestep_index = 0,
             next_timestep_called = True\<rparr>,
     samples = \<lparr>buffer = [], capacity = 1, buffer_closed = True\<rparr>,
     workers = [\<lparr>worker_closed = False, worker_at = Fetching 2 2\<rparr>]\<rparr>"
  have C: "queue_contract (buffer_queue id)" by (rule buffer_queue_contract)
  have new: "ReplaySampler_new (buffer_queue id)
       \<lparr>kUnlimitedMaxSamples = -1, kAutoSelectValue = -1, kDefaultNumWorkers = 1,
        kDefaultMaxSamplesPerStream = 10000\<rparr>
       \<lparr>opt_max_samples = 2, opt_max_in_flight_samples_per_worker = 1,
        opt_num_workers = 1, opt_max_samples_per_stream = -1\<rparr> = Inr st0"
    by (simp add: ReplaySampler_new_def Let_def buffer_queue_def st0_def)
  have run: "run (buffer_queue id)
       [Worker_Loop 0, Worker_Push 0 1 1 5 [[Batch [Scalar (I64 10)]]], Call_GetNextSample,
        Worker_Push 0 2 1 5 [[Batch [Scalar (I64 20)]]], Call_GetNextTimestep] st0 = Some st"
    by (simp add: st0_def st_def worker_loop_def worker_push_def should_stop_workers_def
          Sample_new_def buffer_queue_def GetNextSample_def PopNextSample_def
          Sample_AsBatchedTimesteps_def Concat_def count_returned_def Let_def
          GetNextTimestep_def MaybeSampleNext_def Sample_GetNextTimestep_def
          is_end_of_sample_def)
  have ex: "returned st = max_samples st" "max_samples st = 2" by (simp_all add: st_def)
  from max_samples_exhausted [OF C new run ex(1)] C new run ex show ?thesis by blast
qed

section \<open>Properties of the InsertOnSample extension\<close>

text \<open>
  Claim C9. \<open>ApplyOnSample\<close> does nothing unless the item's \<open>times_sampled\<close> is 1.
  When it is 1, the extension hands exactly one item to \<open>InsertOrAssign\<close> of the target
  table, with its own timeout: a copy of the sampled item whose \<open>table\<close> is the target
  table's name and whose \<open>inserted_at\<close> is cleared, with the key (and the priority, the
  sequence range, \<open>times_sampled\<close> and the chunks) of the sampled item. The status of
  \<open>InsertOrAssign\<close> is only logged.
\<close>

theorem ApplyOnSample_first_sample_only:
  "(times_sampled x \<noteq> 1 \<longrightarrow> ApplyOnSample api ext x = (ext, False)) \<and>
   (times_sampled x = 1 \<longrightarrow>
      (\<exists>copy. ApplyOnSample api ext x =
                 (ext\<lparr>target_table :=
                        snd (api_InsertOrAssign api copy (timeout ext) (target_table ext))\<rparr>,
                  fst (api_InsertOrAssign api copy (timeout ext) (target_table ext)) \<noteq> OK) \<and>
               item_key (item copy) = item_key (item (ref x)) \<and>
               item_table (item copy) = api_name api (target_table ext) \<and>
               item_inserted_at (item copy) = None \<and>
               item_priority (item copy) = item_priority (item (ref x)) \<and>
               item_sequence_range (item copy) = item_sequence_range (item (ref x)) \<and>
               item_times_sampled (item copy) = item_times_sampled (item (ref x)) \<and>
               item_chunks copy = item_chunks (ref x)))"
proof (intro conjI impI)
  assume "times_sampled x \<noteq> 1"
  then show "ApplyOnSample api ext x = (ext, False)"
    by (simp add: ApplyOnSample_def)
next
  assume one: "times_sampled x = 1"
  let ?copy = "\<lparr>item = (item (ref x))\<lparr>item_table := api_name api (target_table ext),
                                        item_inserted_at := None\<rparr>,
                item_chunks = item_chunks (ref x)\<rparr>"
  have "ApplyOnSample api ext x =
          (ext\<lparr>target_table :=
                 snd (api_InsertOrAssign api ?copy (timeout ext) (target_table ext))\<rparr>,
           fst (api_InsertOrAssign api ?copy (timeout ext) (target_table ext)) \<noteq> OK)"
    using one by (simp add: ApplyOnSample_def Let_def split: prod.splits)
  then show "\<exists>copy. ApplyOnSample api ext x =
                 (ext\<lparr>target_table :=
                        snd (api_InsertOrAssign api copy (timeout ext) (target_table ext))\<rparr>,
                  fst (api_InsertOrAssign api copy (timeout ext) (target_table ext)) \<noteq> OK) \<and>
               item_key (item copy) = item_key (item (ref x)) \<and>
               item_table (item copy) = api_name api (target_table ext) \<and>
               item_inserted_at (item copy) = None \<and>
               item_priority (item copy) = item_priority (item (ref x)) \<and>
               item_sequence_range (item copy) = item_sequence_range (item (ref x)) \<and>
               item_times_sampled (item copy) = item_times_sampled (item (ref x)) \<and>
               item_chunks copy = item_chunks (ref x)"
    by (intro exI [of _ ?copy]) simp
qed

theorem ApplyOnSample_first_sample_only_witness:
  "times_sampled
     \<lparr>ref = \<lparr>item = \<lparr>item_key = 3, item_table = ''source'', item_priority = 123,
                      item_sequence_range = (300, 0, 1), item_times_sampled = 1,
                      item_inserted_at = Some 1000\<rparr>,
             item_chunks = [300]\<rparr>,
      times_sampled = 1\<rparr> = 1 \<and>
   ApplyOnSample
     \<lparr>api_name = fst, api_InsertOrAssign = (\<lambda>it t tbl. (OK, (fst tbl, snd tbl @ [it])))\<rparr>
     (InsertOnSampleExtension_new (''target'', []) 5)
     \<lparr>ref = \<lparr>item = \<lparr>item_key = 3, item_table = ''source'', item_priority = 123,
                      item_sequence_range = (300, 0, 1), item_times_sampled = 1,
                      item_inserted_at = Some 1000\<rparr>,
             item_chunks = [300]\<rparr>,
      times_sampled = 1\<rparr>
   = (\<lparr>target_table =
        (''target'',
         [\<lparr>item = \<lparr>item_key = 3, item_table = ''target'', item_priority = 123,
                    item_sequence_range = (300, 0, 1), item_times_sampled = 1,
                    item_inserted_at = None\<rparr>,
           item_chunks = [300]\<rparr>]),
       table_name = kUndefinedName, timeout = 5\<rparr>, False) \<and>
   times_sampled
     \<lparr>ref = \<lparr>item = \<lparr>item_key = 3, item_table = ''source'', item_priority = 123,
                      item_sequence_range = (300, 0, 1), item_times_sampled = 2,
                      item_inserted_at = Some 1000\<rparr>,
             item_chunks = [300]\<rparr>,
      times_sampled = 2\<rparr> \<noteq> 1 \<and>
   ApplyOnSample
     \<lparr>api_name = fst, api_InsertOrAssign = (\<lambda>it t tbl. (OK, (fst tbl, snd tbl @ [it])))\<rparr>
     (InsertOnSampleExtension_new (''target'', []) 5)
     \<lparr>ref = \<lparr>item = \<lparr>item_key = 3, item_table = ''source'', item_priority = 123,
                      item_sequence_range = (300, 0, 1), item_times_sampled = 2,
                      item_inserted_at = Some 1000\<rparr>,
             item_chunks = [300]\<rparr>,
      times_sampled = 2\<rparr>
   = (InsertOnSampleExtension_new (''target'', []) 5, False)"
proof -
  let ?api = "\<lparr>api_name = fst,
               api_InsertOrAssign = (\<lambda>it t tbl. (OK, (fst tbl, snd tbl @ [it])))\<rparr>
              :: (string \<times> table_item list) table_api"
  let ?ext = "InsertOnSampleExtension_new (''target'', []) 5 :: (string \<times> table_item list) insert_on_sample"
  let ?x1 = "\<lparr>ref = \<lparr>item = \<lparr>item_key = 3, item_table = ''source'', item_priority = 123,
                      item_sequence_range = (300, 0, 1), item_times_sampled = 1,
                      item_inserted_at = Some 1000\<rparr>,
             item_chunks = [300]\<rparr>,
      times_sampled = 1\<rparr>"
  let ?x2 = "\<lparr>ref = \<lparr>item = \<lparr>item_key = 3, item_table = ''source'', item_priority = 123,
                      item_sequence_range = (300, 0, 1), item_times_sampled = 2,
                      item_inserted_at = Some 1000\<rparr>,
             item_chunks = [300]\<rparr>,
      times_sampled = 2\<rparr>"
  have h1: "times_sampled ?x1 = 1" and h2: "times_sampled ?x2 \<noteq> 1" by simp_all
  from ApplyOnSample_first_sample_only [of ?x2 ?api ?ext] h2
  have noop: "ApplyOnSample ?api ?ext ?x2 = (?ext, False)" by blast
  from ApplyOnSample_first_sample_only [of ?x1 ?api ?ext] h1
  obtain copy where
    c: "ApplyOnSample ?api ?ext ?x1 =
          (?ext\<lparr>target_table :=
                 snd (api_InsertOrAssign ?api copy (timeout ?ext) (target_table ?ext))\<rparr>,
           fst (api_InsertOrAssign ?api copy (timeout ?ext) (target_table ?ext)) \<noteq> OK)"
      "item_key (item copy) = item_key (item (ref ?x1))"
      "item_table (item copy) = api_name ?api (target_table ?ext)"
      "item_inserted_at (item copy) = None"
      "item_priority (item copy) = item_priority (item (ref ?x1))"
      "item_sequence_range (item copy) = item_sequence_range (item (ref ?x1))"
      "item_times_sampled (item copy) = item_times_sampled (item (ref ?x1))"
      "item_chunks copy = item_chunks (ref ?x1)"
    by blast
  have copy: "copy = \<lparr>item = \<lparr>item_key = 3, item_table = ''target'', item_priority = 123,
                    item_sequence_range = (300, 0, 1), item_times_sampled = 1,
                    item_inserted_at = None\<rparr>,
           item_chunks = [300]\<rparr>"
    using c(2-8)
    by (cases copy, cases "item copy") (simp add: InsertOnSampleExtension_new_def)
  have ins: "ApplyOnSample ?api ?ext ?x1 =
     (\<lparr>target_table = (''target'', [copy]), table_name = kUndefinedName, timeout = 5\<rparr>, False)"
    unfolding c(1) by (simp add: InsertOnSampleExtension_new_def)
  show ?thesis using h1 h2 noop ins unfolding copy by simp
qed

section \<open>Properties of the priority table\<close>
























lemma dist_Insert_ok:
  "k \<notin> set (dist_keys d) \<Longrightarrow> \<exists>d'. dist_Insert k p d = Inr d'"
  by (cases d) auto





























end
